theory Spec2Isabelle
  imports Complex_Main "HOL-Library.Word" "HOL-Library.Log_Nat"
begin

unbundle bit_operations_syntax

section \<open>Data model of \<^verbatim>\<open>yoga/enums/YogaEnums.h\<close>\<close>

text \<open>
  The header is generic in an enumeration type \<^verbatim>\<open>EnumT\<close>. A value of \<^verbatim>\<open>EnumT\<close> is its
  underlying integer, \<open>'a word\<close> for an underlying type of \<open>LENGTH('a)\<close> bits; whether the
  underlying type is signed is a \<open>signedness\<close>, by which the bits are read. \<^verbatim>\<open>int32_t\<close> is a 32-bit word read with
  \<open>sint\<close>; \<open>scast\<close> is the conversion of a signed value to another integer type and
  \<open>ucast\<close> that of an unsigned one.
\<close>

type_synonym int32_t = "32 word"

datatype signedness = Unsigned | Signed

datatype 'u enumT = EnumT (rep: 'u)

text \<open>
  The underlying type of an enumeration is an integral type: signed or unsigned, and
  either one of the integer types (\<^verbatim>\<open>unsigned char\<close>, \<^verbatim>\<open>int\<close>, \<^verbatim>\<open>uint8_t\<close>, ...) or a
  character type (\<^verbatim>\<open>char\<close>, \<^verbatim>\<open>wchar_t\<close>, \<^verbatim>\<open>char16_t\<close>, ...), which is integral but not
  an integer type. Conversions to both wrap around. (An enumeration over \<^verbatim>\<open>bool\<close>, where
  a conversion does not wrap, is not described.)
\<close>

datatype type_category = IntegerType | CharacterType

datatype underlying = Underlying (signedness_of: signedness) (category_of: type_category)

text \<open>
  What the templates see of their type argument: whether it is an enumeration
  (\<^verbatim>\<open>std::is_enum_v\<close>), its underlying type, and the value returned by the
  specialization of \<^verbatim>\<open>ordinalCount\<close> written for it, if one was written. The type
  parameter \<open>'u\<close> is the representation of the underlying type.
\<close>

datatype 'u cxx_type = NotAnEnum | EnumType underlying "int32_t option"

text \<open>
  An instantiation either builds, and then has a value, or is rejected by the compiler:
  a constraint (concept or \<^verbatim>\<open>enable_if\<close>) is not satisfied, or a function is called
  that has no definition (declared only in the primary variant, \<^verbatim>\<open>= delete\<close> in the shim).
\<close>

datatype build_error = ConstraintNotSatisfied | NoDefinition

text \<open>The evaluation context and the compiler select the branch of \<^verbatim>\<open>cpp17_bit_width\<close>.\<close>

datatype compiler = MSVC | GNUC

datatype evaluation = ConstantEvaluated | RunTime

record 'u Iterator =
  e :: "'u enumT"

text \<open>
  \<^verbatim>\<open>struct Range\<close> has no data member; its \<^verbatim>\<open>end()\<close> calls \<^verbatim>\<open>ordinalCount<EnumT>()\<close> of the
  instantiation it is local to, which is what a \<open>Range\<close> of the model carries.
\<close>

datatype 'u Range = Range int32_t

section \<open>Library primitives the header calls\<close>

text \<open>
  Number of leading zero bits of an unsigned value, scanning from the most significant
  bit (\<^verbatim>\<open>std::countl_zero\<close>).
\<close>

fun countl_zero_aux :: "nat \<Rightarrow> 'a::len word \<Rightarrow> nat" where
  "countl_zero_aux 0 x = 0"
| "countl_zero_aux (Suc n) x = (if bit x n then 0 else Suc (countl_zero_aux n x))"

definition countl_zero :: "'a::len word \<Rightarrow> nat" where
  "countl_zero x = countl_zero_aux LENGTH('a) x"

text \<open>
  \<^verbatim>\<open>std::bit_width(x)\<close> of the C++20 library: the number of digits of the type minus
  \<^verbatim>\<open>countl_zero(x)\<close>. It takes part in overload resolution for the unsigned integer
  types only: not for a signed type, and not for a character type.
\<close>

definition std_bit_width :: "'a::len word \<Rightarrow> int32_t" where
  "std_bit_width x = of_nat (LENGTH('a) - countl_zero x)"

definition std_bit_width_call :: "underlying \<Rightarrow> 'a::len word \<Rightarrow> build_error + int32_t" where
  "std_bit_width_call u x =
     (if signedness_of u = Unsigned \<and> category_of u = IntegerType
      then Inr (std_bit_width x)
      else Inl ConstraintNotSatisfied)"

text \<open>
  The argument of the intrinsics is converted to a 32-bit unsigned integer
  (\<^verbatim>\<open>unsigned long\<close> for MSVC, \<^verbatim>\<open>unsigned int\<close> for GCC).
\<close>

definition to_u32 :: "signedness \<Rightarrow> 'a::len word \<Rightarrow> 32 word" where
  "to_u32 sg x = (case sg of Unsigned \<Rightarrow> ucast x | Signed \<Rightarrow> scast x)"

text \<open>
  \<^verbatim>\<open>_BitScanReverse(&index, mask)\<close> stores the position of the most significant set bit of
  the mask; for a zero mask it stores nothing and \<^verbatim>\<open>index\<close> stays indeterminate (\<open>None\<close>).
\<close>

definition BitScanReverse :: "32 word \<Rightarrow> 32 word option" where
  "BitScanReverse m = (if m = 0 then None else Some (of_nat (31 - countl_zero m)))"

text \<open>
  \<^verbatim>\<open>__builtin_clz(x)\<close>: the number of leading zero bits of a 32-bit unsigned value; the
  result is undefined for zero (\<open>None\<close>).
\<close>

definition builtin_clz :: "32 word \<Rightarrow> int32_t option" where
  "builtin_clz x = (if x = 0 then None else Some (of_nat (countl_zero x)))"

text \<open>
  The largest value of a \<open>LENGTH('a)\<close>-bit integral type
  (\<^verbatim>\<open>std::numeric_limits<T>::max()\<close>), and the integer a value of the type stands for.
\<close>

definition underlying_max :: "signedness \<Rightarrow> 'a::len itself \<Rightarrow> int" where
  "underlying_max sg T =
     (case sg of Unsigned \<Rightarrow> 2 ^ LENGTH('a) - 1 | Signed \<Rightarrow> 2 ^ (LENGTH('a) - 1) - 1)"

definition ordinal_value :: "signedness \<Rightarrow> 'a::len word \<Rightarrow> int" where
  "ordinal_value sg x = (case sg of Unsigned \<Rightarrow> uint x | Signed \<Rightarrow> sint x)"

section \<open>Primary variant (lines 15-86)\<close>

definition Enumeration :: "'u cxx_type \<Rightarrow> bool" where
  "Enumeration t = (case t of NotAnEnum \<Rightarrow> False | EnumType u spec \<Rightarrow> True)"

text \<open>
  \<^verbatim>\<open>template <Enumeration EnumT> constexpr int32_t ordinalCount();\<close> is declared and not
  defined: a call has a value only through a specialization.
\<close>

definition ordinalCount :: "'u cxx_type \<Rightarrow> build_error + int32_t" where
  "ordinalCount t =
     (if Enumeration t
      then (case t of
              NotAnEnum \<Rightarrow> Inl ConstraintNotSatisfied
            | EnumType u None \<Rightarrow> Inl NoDefinition
            | EnumType u (Some n) \<Rightarrow> Inr n)
      else Inl ConstraintNotSatisfied)"

text \<open>
  \<^verbatim>\<open>concept HasOrdinality = (ordinalCount<EnumT>() > 0)\<close>. A constraint whose substitution
  fails (no \<^verbatim>\<open>ordinalCount\<close> for a type that is no enumeration) is not satisfied; one
  whose expression cannot be evaluated has no value.
\<close>

definition HasOrdinality :: "'u cxx_type \<Rightarrow> build_error + bool" where
  "HasOrdinality t =
     (case ordinalCount t of
        Inl ConstraintNotSatisfied \<Rightarrow> Inr False
      | Inl NoDefinition \<Rightarrow> Inl NoDefinition
      | Inr n \<Rightarrow> Inr (0 <s n))"

text \<open>A template whose head names a constraint is instantiated only where it holds.\<close>

definition constrained :: "build_error + bool \<Rightarrow> build_error + 'r \<Rightarrow> build_error + 'r" where
  "constrained c body =
     (case c of
        Inl err \<Rightarrow> Inl err
      | Inr False \<Rightarrow> Inl ConstraintNotSatisfied
      | Inr True \<Rightarrow> body)"

definition bitCount :: "'a::len word cxx_type \<Rightarrow> build_error + int32_t" where
  "bitCount t =
     constrained (HasOrdinality t)
       (case t of
          NotAnEnum \<Rightarrow> Inl ConstraintNotSatisfied
        | EnumType u spec \<Rightarrow>
            (case ordinalCount t of
               Inl err \<Rightarrow> Inl err
             | Inr n \<Rightarrow> std_bit_width_call u (scast (n - 1) :: 'a word)))"

text \<open>
  \<^verbatim>\<open>to_underlying\<close> accepts values of enumeration types only, which the argument type
  \<open>'u enumT\<close> says.
\<close>

definition to_underlying :: "'u enumT \<Rightarrow> 'u" where
  "to_underlying v = rep v"

definition static_cast_EnumT :: "'u \<Rightarrow> 'u enumT" where
  "static_cast_EnumT v = EnumT v"

definition op_deref :: "'u Iterator \<Rightarrow> 'u enumT" where
  "op_deref it = e it"

definition op_incr :: "'a::len word Iterator \<Rightarrow> 'a word Iterator" where
  "op_incr it = it\<lparr>e := static_cast_EnumT (to_underlying (e it) + 1)\<rparr>"

text \<open>The defaulted comparisons compare the members, of which \<^verbatim>\<open>e\<close> is the only one.\<close>

definition op_eq :: "'u Iterator \<Rightarrow> 'u Iterator \<Rightarrow> bool" where
  "op_eq it other = (e it = e other)"

definition op_neq :: "'u Iterator \<Rightarrow> 'u Iterator \<Rightarrow> bool" where
  "op_neq it other = (\<not> op_eq it other)"

definition Range_begin :: "'a::len word Range \<Rightarrow> 'a word Iterator" where
  "Range_begin r = \<lparr>e = EnumT 0\<rparr>"

definition Range_end :: "'a::len word Range \<Rightarrow> 'a word Iterator" where
  "Range_end r = (case r of Range n \<Rightarrow> \<lparr>e = static_cast_EnumT (scast n)\<rparr>)"

definition ordinals :: "'a::len word cxx_type \<Rightarrow> build_error + 'a word Range" where
  "ordinals t =
     constrained (HasOrdinality t)
       (case ordinalCount t of Inl err \<Rightarrow> Inl err | Inr n \<Rightarrow> Inr (Range n))"

section \<open>Compatibility shim (lines 90-207)\<close>

definition IsEnumeration :: "'u cxx_type \<Rightarrow> bool" where
  "IsEnumeration t = (case t of NotAnEnum \<Rightarrow> False | EnumType u spec \<Rightarrow> True)"

definition ordinalCount_shim :: "'u cxx_type \<Rightarrow> build_error + int32_t" where
  "ordinalCount_shim t =
     (if IsEnumeration t
      then (case t of
              NotAnEnum \<Rightarrow> Inl ConstraintNotSatisfied
            | EnumType u None \<Rightarrow> Inl NoDefinition
            | EnumType u (Some n) \<Rightarrow> Inr n)
      else Inl ConstraintNotSatisfied)"

definition HasOrdinality_shim :: "'u cxx_type \<Rightarrow> build_error + bool" where
  "HasOrdinality_shim t =
     (if IsEnumeration t
      then (case ordinalCount_shim t of Inl err \<Rightarrow> Inl err | Inr n \<Rightarrow> Inr (0 <s n))
      else Inl ConstraintNotSatisfied)"

text \<open>\<^verbatim>\<open>x >>= 1\<close>: a logical shift of an unsigned value, an arithmetic one of a signed value.\<close>

definition shift_right_1 :: "signedness \<Rightarrow> 'a::len word \<Rightarrow> 'a word" where
  "shift_right_1 sg x = (case sg of Unsigned \<Rightarrow> drop_bit 1 x | Signed \<Rightarrow> signed_drop_bit 1 x)"

text \<open>
  \<^verbatim>\<open>while (x) { width++; x >>= 1; } return width;\<close> The loop may not return, which is the
  value \<open>None\<close>.
\<close>

partial_function (option) width_loop :: "signedness \<Rightarrow> 'a::len word \<Rightarrow> int32_t \<Rightarrow> int32_t option" where
  "width_loop sg x width =
     (if x \<noteq> 0 then width_loop sg (shift_right_1 sg x) (width + 1) else Some width)"

definition cpp17_bit_width :: "compiler \<Rightarrow> evaluation \<Rightarrow> signedness \<Rightarrow> 'a::len word \<Rightarrow> int32_t option" where
  "cpp17_bit_width cc ev sg x =
     (if x = 0 then Some 0
      else case cc of
        MSVC \<Rightarrow>
          (if ev = ConstantEvaluated then width_loop sg x 0
           else (case BitScanReverse (to_u32 sg x) of
                   None \<Rightarrow> None
                 | Some index \<Rightarrow> Some (index + 1)))
      | GNUC \<Rightarrow>
          (if ev = ConstantEvaluated then width_loop sg x 0
           else (if x = 0 then Some 0 else builtin_clz (to_u32 sg x))))"

definition bitCount_shim ::
  "compiler \<Rightarrow> evaluation \<Rightarrow> 'a::len word cxx_type \<Rightarrow> build_error + int32_t option" where
  "bitCount_shim cc ev t =
     constrained (HasOrdinality_shim t)
       (case t of
          NotAnEnum \<Rightarrow> Inl ConstraintNotSatisfied
        | EnumType u spec \<Rightarrow>
            (case ordinalCount_shim t of
               Inl err \<Rightarrow> Inl err
             | Inr n \<Rightarrow> Inr (cpp17_bit_width cc ev (signedness_of u) (scast (n - 1) :: 'a word))))"

definition to_underlying_shim :: "'u enumT \<Rightarrow> 'u" where
  "to_underlying_shim v = rep v"

definition op_deref_shim :: "'u Iterator \<Rightarrow> 'u enumT" where
  "op_deref_shim it = e it"

definition op_incr_shim :: "'a::len word Iterator \<Rightarrow> 'a word Iterator" where
  "op_incr_shim it = it\<lparr>e := static_cast_EnumT (to_underlying_shim (e it) + 1)\<rparr>"

definition op_eq_shim :: "'u Iterator \<Rightarrow> 'u Iterator \<Rightarrow> bool" where
  "op_eq_shim it other = (e it = e other)"

definition op_neq_shim :: "'u Iterator \<Rightarrow> 'u Iterator \<Rightarrow> bool" where
  "op_neq_shim it other = (e it \<noteq> e other)"

text \<open>
  The shim's \<^verbatim>\<open>ordinals\<close> is enabled for every enumeration (line 173); its body calls
  \<^verbatim>\<open>ordinalCount<EnumT>()\<close>, deleted where no specialization exists.
\<close>

definition ordinals_shim :: "'a::len word cxx_type \<Rightarrow> build_error + 'a word Range" where
  "ordinals_shim t =
     (if IsEnumeration t
      then (case ordinalCount_shim t of Inl err \<Rightarrow> Inl err | Inr n \<Rightarrow> Inr (Range n))
      else Inl ConstraintNotSatisfied)"

section \<open>Consuming a range\<close>

text \<open>
  The range-based for loop \<^verbatim>\<open>for (auto v : ordinals<EnumT>())\<close>:
  \<^verbatim>\<open>for (auto it = r.begin(), stop = r.end(); it != stop; ++it) { v = *it; ... }\<close>,
  returning the values read, in order. Incrementing a word reaches every value, so the
  loop of the model returns whatever the two markers are. (For a signed underlying type as
  wide as \<^verbatim>\<open>int\<close>, C++ leaves the increment past the largest value undefined; no
  statement below reaches it.)
\<close>

function range_for_loop :: "'a::len word Iterator \<Rightarrow> 'a word Iterator \<Rightarrow> 'a word enumT list" where
  "range_for_loop it stop =
     (if op_neq it stop then op_deref it # range_for_loop (op_incr it) stop else [])"
  by pat_completeness auto
termination
proof (relation "measure (\<lambda>(it, stop). unat (rep (e stop) - rep (e it)))")
  show "wf (measure (\<lambda>(it, stop). unat (rep (e stop) - rep (e it :: 'a word enumT))))"
    by simp
next
  fix it stop :: "'a word Iterator"
  assume ne: "op_neq it stop"
  define d where "d = rep (e stop) - rep (e it)"
  have "rep (e stop) \<noteq> rep (e it)"
    using ne by (auto simp: op_neq_def op_eq_def enumT.expand)
  hence "d \<noteq> 0"
    by (simp add: d_def)
  hence "unat (d - 1) < unat d"
    by (simp add: unat_minus_one unat_gt_0)
  hence "unat (rep (e stop) - (rep (e it) + 1)) < unat (rep (e stop) - rep (e it))"
    unfolding d_def by (simp only: diff_diff_eq)
  thus "((op_incr it, stop), (it, stop))
      \<in> measure (\<lambda>(it, stop). unat (rep (e stop) - rep (e it)))"
    by (simp add: op_incr_def static_cast_EnumT_def to_underlying_def)
qed

definition range_for :: "'a::len word Range \<Rightarrow> 'a word enumT list" where
  "range_for r = range_for_loop (Range_begin r) (Range_end r)"

text \<open>
  The same loop over the shim's iterator (lines 175-193). \<^verbatim>\<open>struct Range\<close> is the same text
  in both variants (lines 74-81 and 195-202).
\<close>

function range_for_loop_shim :: "'a::len word Iterator \<Rightarrow> 'a word Iterator \<Rightarrow> 'a word enumT list" where
  "range_for_loop_shim it stop =
     (if op_neq_shim it stop then op_deref_shim it # range_for_loop_shim (op_incr_shim it) stop
      else [])"
  by pat_completeness auto
termination
proof (relation "measure (\<lambda>(it, stop). unat (rep (e stop) - rep (e it)))")
  show "wf (measure (\<lambda>(it, stop). unat (rep (e stop) - rep (e it :: 'a word enumT))))"
    by simp
next
  fix it stop :: "'a word Iterator"
  assume ne: "op_neq_shim it stop"
  define d where "d = rep (e stop) - rep (e it)"
  have "rep (e stop) \<noteq> rep (e it)"
    using ne by (auto simp: op_neq_shim_def enumT.expand)
  hence "d \<noteq> 0"
    by (simp add: d_def)
  hence "unat (d - 1) < unat d"
    by (simp add: unat_minus_one unat_gt_0)
  hence "unat (rep (e stop) - (rep (e it) + 1)) < unat (rep (e stop) - rep (e it))"
    unfolding d_def by (simp only: diff_diff_eq)
  thus "((op_incr_shim it, stop), (it, stop))
      \<in> measure (\<lambda>(it, stop). unat (rep (e stop) - rep (e it)))"
    by (simp add: op_incr_shim_def static_cast_EnumT_def to_underlying_shim_def)
qed

definition range_for_shim :: "'a::len word Range \<Rightarrow> 'a word enumT list" where
  "range_for_shim r = range_for_loop_shim (Range_begin r) (Range_end r)"

text \<open>
  Iterator objects in memory: a store from addresses to objects. \<^verbatim>\<open>operator++\<close> writes the
  member \<^verbatim>\<open>e\<close> of the object it is called on; \<^verbatim>\<open>operator*\<close> is \<^verbatim>\<open>const\<close>.
\<close>

type_synonym 'u store = "nat \<rightharpoonup> 'u Iterator"

datatype iter_op = Advance nat | Read nat

fun target :: "iter_op \<Rightarrow> nat" where
  "target (Advance a) = a"
| "target (Read a) = a"

fun exec_op :: "'a::len word store \<Rightarrow> iter_op \<Rightarrow> 'a word store" where
  "exec_op s (Advance a) = (case s a of None \<Rightarrow> s | Some it \<Rightarrow> s(a \<mapsto> op_incr it))"
| "exec_op s (Read a) = s"

definition exec_ops :: "'a::len word store \<Rightarrow> iter_op list \<Rightarrow> 'a word store" where
  "exec_ops s ops = foldl exec_op s ops"

text \<open>What a loop over the object at address \<open>a\<close> reads until it meets \<open>stop\<close>.\<close>

definition remaining :: "'a::len word store \<Rightarrow> nat \<Rightarrow> 'a word Iterator \<Rightarrow> 'a word enumT list option" where
  "remaining s a stop = (case s a of None \<Rightarrow> None | Some it \<Rightarrow> Some (range_for_loop it stop))"

section \<open>Bit widths as logarithms\<close>

lemma floorlog2_eqI:
  assumes "2 ^ n \<le> k" "k < 2 ^ Suc n"
  shows "floorlog 2 k = Suc n"
proof -
  have "floorlog 2 k \<le> Suc n"
    using assms(2) by (simp add: floorlog_le_iff)
  moreover have "Suc n \<le> floorlog 2 k"
    using assms(1) by (intro floorlog_ge_SucI) simp_all
  ultimately show ?thesis by simp
qed

lemma countl_zero_aux_le: "countl_zero_aux n x \<le> n"
  by (induction n) simp_all

lemma unat_less_no_bit:
  fixes x :: "'a::len word"
  assumes "unat x < 2 ^ Suc n" "\<not> bit x n"
  shows "unat x < 2 ^ n"
proof -
  have "\<not> bit (unat x) n"
    using assms(2) by (simp add: bit_unsigned_iff)
  hence "\<not> odd (unat x div 2 ^ n)"
    by (simp add: bit_iff_odd)
  moreover have "unat x div 2 ^ n < 2"
    using assms(1) by (simp add: less_mult_imp_div_less)
  ultimately have "unat x div 2 ^ n = 0"
    by (cases "unat x div 2 ^ n") auto
  thus ?thesis
    by (simp add: div_eq_0_iff)
qed

lemma bit_unat_ge:
  fixes x :: "'a::len word"
  assumes "bit x n"
  shows "2 ^ n \<le> unat x"
proof -
  have "bit (unat x) n"
    using assms by (simp add: bit_unsigned_iff)
  hence "odd (unat x div 2 ^ n)"
    by (simp add: bit_iff_odd)
  hence "unat x div 2 ^ n \<noteq> 0"
    by (intro notI) simp
  thus ?thesis
    by (simp add: div_eq_0_iff not_less)
qed

lemma countl_zero_aux_floorlog:
  fixes x :: "'a::len word"
  assumes "unat x < 2 ^ n"
  shows "n - countl_zero_aux n x = floorlog 2 (unat x)"
  using assms
proof (induction n)
  case 0
  then show ?case by (simp add: floorlog_def)
next
  case (Suc n)
  show ?case
  proof (cases "bit x n")
    case True
    have "floorlog 2 (unat x) = Suc n"
      using bit_unat_ge [OF True] Suc.prems by (rule floorlog2_eqI)
    with True show ?thesis by simp
  next
    case False
    have "unat x < 2 ^ n"
      using Suc.prems False by (rule unat_less_no_bit)
    from Suc.IH [OF this] countl_zero_aux_le [of n x] False show ?thesis
      by simp
  qed
qed


lemma countl_zero_le: "countl_zero (x :: 'a::len word) \<le> LENGTH('a)"
  by (simp add: countl_zero_def countl_zero_aux_le)

lemma countl_zero_floorlog: "LENGTH('a) - countl_zero (x :: 'a::len word) = floorlog 2 (unat x)"
  unfolding countl_zero_def by (rule countl_zero_aux_floorlog) simp

lemma std_bit_width_floorlog: "std_bit_width x = of_nat (floorlog 2 (unat x))"
  by (simp add: std_bit_width_def countl_zero_floorlog)

lemma floorlog_half: "0 < k \<Longrightarrow> floorlog 2 k = Suc (floorlog 2 (k div 2))"
  by (subst compute_floorlog) simp

lemma signed_shift_nonneg:
  fixes x :: "'a::len word"
  assumes "0 \<le>s x"
  shows "signed_drop_bit 1 x = drop_bit 1 x"
proof -
  have "\<not> bit x (LENGTH('a) - Suc 0)"
    using assms by (simp add: word_sle_eq sint_greater_eq not_less bit_last_iff)
  thus ?thesis
    by (intro bit_word_eqI) (auto simp: bit_simps dest: bit_imp_le_length)
qed

lemma drop_bit_nonneg: "0 \<le>s drop_bit 1 (x :: 'a::len word)"
proof -
  have "\<not> bit (drop_bit 1 x) (LENGTH('a) - Suc 0)"
    by (simp add: bit_simps)
  thus ?thesis
    by (simp add: word_sle_eq bit_last_iff not_less)
qed

lemma signed_shift_neg:
  fixes x :: "'a::len word"
  assumes "x <s 0"
  shows "signed_drop_bit 1 x <s 0"
  using assms by (simp add: word_sless_alt sint_signed_drop_bit_eq drop_bit_eq_div)

lemma width_loop_nonneg:
  fixes x :: "'a::len word"
  assumes "sg = Unsigned \<or> 0 \<le>s x"
  shows "width_loop sg x w = Some (w + of_nat (floorlog 2 (unat x)))"
  using assms
proof (induction "unat x" arbitrary: x w rule: less_induct)
  case less
  show ?case
  proof (cases "x = 0")
    case True
    thus ?thesis
      by (subst width_loop.simps) (simp add: floorlog_def)
  next
    case False
    hence pos: "0 < unat x"
      by (simp add: unat_gt_0)
    have sh: "shift_right_1 sg x = drop_bit 1 x"
      using less.prems signed_shift_nonneg [of x] by (cases sg) (auto simp: shift_right_1_def)
    have half: "unat (drop_bit 1 x) = unat x div 2"
      unfolding unat_drop_bit_eq by (simp add: drop_bit_eq_div)
    have "unat (drop_bit 1 x) < unat x"
      using pos unfolding half by simp
    moreover have "sg = Unsigned \<or> 0 \<le>s drop_bit 1 x"
      by (rule disjI2) (rule drop_bit_nonneg)
    ultimately have "width_loop sg (drop_bit 1 x) (w + 1)
        = Some (w + 1 + of_nat (floorlog 2 (unat (drop_bit 1 x))))"
      by (rule less.hyps)
    moreover have "floorlog 2 (unat x) = Suc (floorlog 2 (unat (drop_bit 1 x)))"
      using pos by (simp only: half floorlog_half)
    ultimately show ?thesis
      using False by (subst width_loop.simps) (simp add: sh)
  qed
qed

lemma width_loop_Some_nonneg:
  assumes "width_loop sg x w = Some y"
  shows "sg = Unsigned \<or> 0 \<le>s x"
proof (rule width_loop.raw_induct [where xa = "((sg, x), w)" and y = y
      and P = "\<lambda>sg x w y. sg = Unsigned \<or> 0 \<le>s x", unfolded prod.case])
  show "width_loop sg x w = Some y"
    by (rule assms)
next
  fix f :: "signedness \<Rightarrow> 'a word \<Rightarrow> int32_t \<Rightarrow> int32_t option"
  fix sg x w y
  assume IH: "\<And>s v u r. f s v u = Some r \<Longrightarrow> s = Unsigned \<or> 0 \<le>s v"
  assume hyps: "(if x \<noteq> 0 then f sg (shift_right_1 sg x) (w + 1) else Some w) = Some y"
  show "sg = Unsigned \<or> 0 \<le>s x"
  proof (cases "sg = Unsigned \<or> 0 \<le>s x")
    case True
    thus ?thesis .
  next
    case False
    hence sg: "sg = Signed" and neg: "x <s 0"
      by (cases sg; auto simp: word_sle_eq word_sless_alt)+
    from neg have "x \<noteq> 0"
      by auto
    with hyps have "f sg (shift_right_1 sg x) (w + 1) = Some y"
      by simp
    from IH [OF this] sg have "0 \<le>s signed_drop_bit 1 x"
      by (simp add: shift_right_1_def)
    with signed_shift_neg [OF neg] show ?thesis
      by (simp add: word_sle_eq word_sless_alt)
  qed
qed

lemma floorlog_pred_ceiling:
  assumes "1 \<le> N"
  shows "int (floorlog 2 (N - 1)) = \<lceil>log 2 (real N)\<rceil>"
proof (cases "N = 1")
  case True
  thus ?thesis by (simp add: floorlog_def)
next
  case False
  with assms have pos: "0 < N - 1" by simp
  define f where "f = floorlog 2 (N - 1)"
  have b: "2 ^ (f - 1) \<le> N - 1 \<and> N - 1 < 2 ^ f"
    unfolding f_def using pos by (intro floorlog_bounds) simp_all
  have f1: "1 \<le> f"
    unfolding f_def using pos by (simp add: floorlog_def)
  have "\<lceil>log 2 (real N)\<rceil> = int (f - 1) + 1"
  proof -
    have "f - 1 + 1 = f"
      using f1 by simp
    moreover have "N - 1 < 2 ^ f \<Longrightarrow> N \<le> 2 ^ f"
      by arith
    moreover have "2 ^ (f - 1) \<le> N - 1 \<Longrightarrow> 2 ^ (f - 1) < N"
      using pos by arith
    ultimately have "2 ^ (f - 1) < N" "N \<le> 2 ^ (f - 1 + 1)"
      using b by simp_all
    from ceiling_log_nat_eq_if [OF this] show ?thesis
      by simp
  qed
  thus ?thesis
    using f1 by (simp add: f_def)
qed

lemma unat_word_of_int_small:
  assumes "0 \<le> k" "k < 2 ^ LENGTH('a)"
  shows "unat (word_of_int k :: 'a::len word) = nat k"
proof -
  have "uint (word_of_int k :: 'a word) = k mod 2 ^ LENGTH('a)"
    by (rule uint_word_of_int)
  also have "\<dots> = k"
    using assms by (rule mod_pos_pos_trivial)
  finally have "nat (uint (word_of_int k :: 'a word)) = nat k"
    by (rule arg_cong)
  thus ?thesis
    by simp
qed

lemma sint_pred_count:
  fixes n :: int32_t
  assumes "1 \<le> sint n"
  shows "sint (n - 1) = sint n - 1"
proof -
  have "sint n < 2 ^ 31"
    using sint_lt [of n] by simp
  with assms show ?thesis
    by (simp add: sint_word_ariths signed_take_bit_int_eq_self)
qed

lemma unat_scast_pred_count:
  fixes n :: int32_t
  assumes "1 \<le> sint n" "sint n - 1 < 2 ^ LENGTH('a)"
  shows "unat (scast (n - 1) :: 'a::len word) = nat (sint n - 1)"
proof -
  have "scast (n - 1) = (word_of_int (sint n - 1) :: 'a word)"
    by (simp only: scast_eq sint_pred_count [OF assms(1)])
  moreover have "unat (word_of_int (sint n - 1) :: 'a word) = nat (sint n - 1)"
    using assms by (intro unat_word_of_int_small) simp_all
  ultimately show ?thesis
    by (simp only:)
qed

lemma floorlog_le_31:
  assumes "k < 2 ^ 31"
  shows "floorlog 2 k \<le> 31"
  using assms by (simp add: floorlog_le_iff)

lemma sint_of_nat_small:
  assumes "k \<le> 31"
  shows "sint (of_nat k :: int32_t) = int k"
proof -
  have "int k \<le> 31"
    using assms by simp
  also have "(31 :: int) < 2 ^ 31"
    by simp
  finally have "int k < 2 ^ 31" .
  thus ?thesis
    by (simp add: signed_of_nat signed_take_bit_int_eq_self)
qed


lemma sint_floorlog:
  assumes "k < 2 ^ 31"
  shows "sint (of_nat (floorlog 2 k) :: int32_t) = int (floorlog 2 k)"
  using assms by (intro sint_of_nat_small floorlog_le_31)

lemma floorlog_floor:
  "int (floorlog 2 k) = (if k = 0 then 0 else \<lfloor>log 2 (real k)\<rfloor> + 1)"
proof (cases "k = 0")
  case True
  thus ?thesis by (simp add: floorlog_def)
next
  case False
  hence "0 \<le> \<lfloor>log 2 (real k)\<rfloor>"
    by (simp add: zero_le_log_cancel_iff)
  with False show ?thesis
    by (simp add: floorlog_def)
qed

lemma cpp17_bit_width_constant_evaluated:
  assumes "sg = Unsigned \<or> 0 \<le>s x"
  shows "cpp17_bit_width cc ConstantEvaluated sg x = Some (of_nat (floorlog 2 (unat x)))"
proof (cases "x = 0")
  case True
  thus ?thesis by (simp add: cpp17_bit_width_def floorlog_def)
next
  case False
  thus ?thesis
    using width_loop_nonneg [OF assms, of 0]
    by (cases cc) (simp_all add: cpp17_bit_width_def)
qed

lemma HasOrdinality_specialized:
  "HasOrdinality (EnumType u (Some n)) = Inr (0 <s n)"
  by (simp add: HasOrdinality_def ordinalCount_def Enumeration_def)

lemma HasOrdinality_shim_specialized:
  "HasOrdinality_shim (EnumType u (Some n)) = Inr (0 <s n)"
  by (simp add: HasOrdinality_shim_def ordinalCount_shim_def IsEnumeration_def)

lemma bitCount_specialized:
  assumes "0 <s n"
  shows "bitCount (EnumType u (Some n) :: 'a::len word cxx_type)
      = std_bit_width_call u (scast (n - 1) :: 'a word)"
  using assms
  by (simp add: bitCount_def HasOrdinality_specialized constrained_def ordinalCount_def
      Enumeration_def)

lemma bitCount_shim_specialized:
  assumes "0 <s n"
  shows "bitCount_shim cc ev (EnumType u (Some n) :: 'a::len word cxx_type)
      = Inr (cpp17_bit_width cc ev (signedness_of u) (scast (n - 1) :: 'a word))"
  using assms
  by (simp add: bitCount_shim_def HasOrdinality_shim_specialized constrained_def
      ordinalCount_shim_def IsEnumeration_def)

section \<open>The values a range yields\<close>

lemma op_neq_iff: "op_neq it stop \<longleftrightarrow> rep (e stop) - rep (e it) \<noteq> (0 :: 'a::len word)"
  by (auto simp: op_neq_def op_eq_def enumT.expand)

lemma range_for_loop_values:
  fixes it stop :: "'a::len word Iterator"
  assumes "unat (rep (e stop) - rep (e it)) = k"
  shows "range_for_loop it stop = map (\<lambda>i. EnumT (rep (e it) + of_nat i)) [0..<k]"
  using assms
proof (induction k arbitrary: it)
  case 0
  hence "\<not> op_neq it stop"
    by (simp add: op_neq_iff unat_eq_zero)
  thus ?case
    by (subst range_for_loop.simps) simp
next
  case (Suc k)
  define d where "d = rep (e stop) - rep (e it)"
  have d: "unat d = Suc k"
    using Suc.prems by (simp add: d_def)
  hence ne: "op_neq it stop"
    by (auto simp: op_neq_iff d_def [symmetric])
  have "rep (e stop) - rep (e (op_incr it)) = d - 1"
    by (simp add: op_incr_def static_cast_EnumT_def to_underlying_def d_def)
  moreover have "unat (d - 1) = k"
    using d by (simp add: unat_minus_one unat_eq_zero [symmetric])
  ultimately have "range_for_loop (op_incr it) stop
      = map (\<lambda>i. EnumT (rep (e (op_incr it)) + of_nat i)) [0..<k]"
    by (intro Suc.IH) simp
  also have "\<dots> = map (\<lambda>i. EnumT (rep (e it) + of_nat i)) (map Suc [0..<k])"
    by (simp add: op_incr_def static_cast_EnumT_def to_underlying_def add.assoc)
  finally have tl: "range_for_loop (op_incr it) stop
      = map (\<lambda>i. EnumT (rep (e it) + of_nat i)) (map Suc [0..<k])" .
  have "range_for_loop it stop = op_deref it # range_for_loop (op_incr it) stop"
    using ne by (subst range_for_loop.simps) simp
  also have "op_deref it = EnumT (rep (e it) + of_nat 0)"
    by (simp add: op_deref_def)
  finally show ?case
    unfolding tl by (simp add: upt_conv_Cons map_Suc_upt del: upt_Suc)
qed

lemma range_for_values:
  "range_for (Range n :: 'a::len word Range)
     = map (\<lambda>i. EnumT (of_nat i)) [0..<unat (scast n :: 'a word)]"
proof -
  have "unat (rep (e (Range_end (Range n :: 'a word Range)))
      - rep (e (Range_begin (Range n :: 'a word Range)))) = unat (scast n :: 'a word)"
    by (simp add: Range_end_def Range_begin_def static_cast_EnumT_def)
  from range_for_loop_values [OF this] show ?thesis
    by (simp add: range_for_def Range_begin_def)
qed

lemma unat_scast_count:
  fixes n :: int32_t
  assumes "0 \<le> sint n" "sint n < 2 ^ LENGTH('a)"
  shows "unat (scast n :: 'a::len word) = nat (sint n)"
  unfolding scast_eq using assms by (rule unat_word_of_int_small)

lemma range_for_ordinals:
  fixes n :: int32_t
  assumes "0 \<le> sint n" "sint n < 2 ^ LENGTH('a)"
  shows "map (unat \<circ> to_underlying) (range_for (Range n :: 'a::len word Range)) = [0..<nat (sint n)]"
proof -
  have "unat (of_nat i :: 'a word) = i" if "i < nat (sint n)" for i
  proof -
    have "int i < 2 ^ LENGTH('a)"
      using that assms by linarith
    hence "int i < int (2 ^ LENGTH('a))"
      by simp
    hence "i < 2 ^ LENGTH('a)"
      by (simp only: of_nat_less_iff)
    thus ?thesis
      by (simp add: unat_of_nat)
  qed
  hence "map (unat \<circ> to_underlying) (map (\<lambda>i. EnumT (of_nat i :: 'a word)) [0..<nat (sint n)])
      = map (\<lambda>i. i) [0..<nat (sint n)]"
    unfolding map_map by (intro map_cong) (simp_all add: to_underlying_def)
  thus ?thesis
    by (simp add: range_for_values unat_scast_count [OF assms])
qed

section \<open>The run-time branches of the shim\<close>

lemma countl_zero_32:
  "countl_zero (m :: 32 word) = 32 - floorlog 2 (unat m)"
  using countl_zero_floorlog [of m] countl_zero_le [of m] by simp

lemma unat_to_u32_unsigned:
  fixes x :: "'a::len word"
  assumes "unat x < 2 ^ 32"
  shows "unat (to_u32 Unsigned x) = unat x"
  using assms by (simp add: to_u32_def unsigned_ucast_eq take_bit_nat_eq_self)

lemma cpp17_bit_width_msvc_run_time:
  fixes x :: "'a::len word"
  assumes "x \<noteq> 0" "unat x < 2 ^ 32"
  shows "cpp17_bit_width MSVC RunTime Unsigned x = Some (of_nat (floorlog 2 (unat x)))"
proof -
  define m where "m = to_u32 Unsigned x"
  have um: "unat m = unat x"
    unfolding m_def using assms(2) by (rule unat_to_u32_unsigned)
  have "0 < unat x"
    using assms(1) by (simp add: unat_gt_0)
  hence f1: "1 \<le> floorlog 2 (unat x)"
    by (simp add: floorlog_def)
  have f32: "floorlog 2 (unat x) \<le> 32"
    using assms(2) by (simp add: floorlog_le_iff)
  have m0: "m \<noteq> 0"
    using um \<open>0 < unat x\<close> by (auto simp: unat_gt_0 [symmetric])
  have "31 - countl_zero m = floorlog 2 (unat x) - 1"
    using f1 f32 by (simp add: countl_zero_32 um)
  hence "(of_nat (31 - countl_zero m) :: 32 word) + 1 = of_nat (floorlog 2 (unat x))"
    using f1 by (metis Suc_pred' of_nat_Suc less_eq_Suc_le add.commute One_nat_def)
  thus ?thesis
    using assms(1) m0 by (simp add: cpp17_bit_width_def BitScanReverse_def m_def [symmetric])
qed

lemma cpp17_bit_width_gnuc_run_time:
  fixes x :: "'a::len word"
  assumes "x \<noteq> 0" "unat x < 2 ^ 32"
  shows "cpp17_bit_width GNUC RunTime Unsigned x = Some (of_nat (32 - floorlog 2 (unat x)))"
proof -
  define m where "m = to_u32 Unsigned x"
  have um: "unat m = unat x"
    unfolding m_def using assms(2) by (rule unat_to_u32_unsigned)
  have "0 < unat x"
    using assms(1) by (simp add: unat_gt_0)
  hence m0: "m \<noteq> 0"
    using um by (auto simp: unat_gt_0 [symmetric])
  thus ?thesis
    using assms(1) by (simp add: cpp17_bit_width_def builtin_clz_def m_def [symmetric] countl_zero_32 um)
qed

lemma cpp17_bit_width_agrees:
  fixes x :: "'a::len word"
  assumes "unat x < 2 ^ 32" and "(cc, ev) \<noteq> (GNUC, RunTime)"
  shows "cpp17_bit_width cc ev Unsigned x = Some (std_bit_width x)"
proof (cases "x = 0")
  case True
  thus ?thesis
    by (simp add: cpp17_bit_width_def std_bit_width_floorlog floorlog_def)
next
  case False
  show ?thesis
  proof (cases ev)
    case ConstantEvaluated
    thus ?thesis
      by (simp add: cpp17_bit_width_constant_evaluated std_bit_width_floorlog)
  next
    case RunTime
    with assms(2) have "cc = MSVC"
      by (cases cc) simp_all
    with RunTime False assms(1) show ?thesis
      by (simp add: cpp17_bit_width_msvc_run_time std_bit_width_floorlog)
  qed
qed

lemma shift_right_1_decreases:
  fixes x :: "'a::len word"
  assumes "x \<noteq> 0" and "sg = Unsigned \<or> 0 \<le>s x"
  shows "unat (shift_right_1 sg x) < unat x"
proof -
  have "shift_right_1 sg x = drop_bit 1 x"
    using assms(2) signed_shift_nonneg [of x] by (cases sg) (auto simp: shift_right_1_def)
  moreover have "unat (drop_bit 1 x) = unat x div 2"
    unfolding unat_drop_bit_eq by (simp add: drop_bit_eq_div)
  moreover have "0 < unat x"
    using assms(1) by (simp add: unat_gt_0)
  ultimately show ?thesis
    by simp
qed

section \<open>Building and sharing ranges\<close>

lemma ordinals_specialized:
  assumes "0 <s n"
  shows "ordinals (EnumType u (Some n) :: 'a::len word cxx_type) = Inr (Range n)"
  using assms by (simp add: ordinals_def HasOrdinality_specialized constrained_def ordinalCount_def Enumeration_def)

lemma ordinals_shim_specialized:
  "ordinals_shim (EnumType u (Some n) :: 'a::len word cxx_type) = Inr (Range n)"
  by (simp add: ordinals_shim_def ordinalCount_shim_def IsEnumeration_def)

lemma ordinals_Inr_D:
  assumes "ordinals t = Inr r \<or> ordinals_shim t = Inr r"
  shows "\<exists>u n. t = EnumType u (Some n) \<and> r = Range n"
proof (cases t)
  case NotAnEnum
  with assms show ?thesis
    by (simp add: ordinals_def ordinals_shim_def HasOrdinality_def ordinalCount_def Enumeration_def
        constrained_def IsEnumeration_def)
next
  case (EnumType u spec)
  show ?thesis
  proof (cases spec)
    case None
    with EnumType assms show ?thesis
      by (simp add: ordinals_def ordinals_shim_def HasOrdinality_def ordinalCount_def Enumeration_def
          ordinalCount_shim_def constrained_def IsEnumeration_def)
  next
    case (Some n)
    with EnumType assms show ?thesis
      by (cases "0 <s n")
        (auto simp: ordinals_def ordinals_shim_def HasOrdinality_def ordinalCount_def Enumeration_def
          ordinalCount_shim_def constrained_def IsEnumeration_def)
  qed
qed

lemma exec_op_frame:
  assumes "target op \<noteq> b"
  shows "exec_op s op b = s b"
  using assms by (cases op) (simp_all split: option.split)

lemma exec_ops_frame:
  assumes "\<forall>op \<in> set ops. target op \<noteq> b"
  shows "exec_ops s ops b = s b"
  using assms unfolding exec_ops_def
  by (induction ops arbitrary: s) (simp_all add: exec_op_frame)

lemma primary_is_constrained:
  assumes "HasOrdinality t \<noteq> Inr True"
  shows "(\<exists>err. bitCount t = Inl err) \<and> (\<exists>err. ordinals t = Inl err)"
  using assms
  by (cases "HasOrdinality t") (auto simp: bitCount_def ordinals_def constrained_def)

lemma bitCount_shim_is_constrained:
  assumes "HasOrdinality_shim t \<noteq> Inr True"
  shows "\<exists>err. bitCount_shim cc ev t = Inl err"
  using assms
  by (cases "HasOrdinality_shim t") (auto simp: bitCount_shim_def constrained_def)

section \<open>Signed underlying types and the shim's loop\<close>

lemma range_for_loop_shim_eq:
  "range_for_loop_shim it stop = range_for_loop it stop"
proof (induction it stop rule: range_for_loop.induct)
  case (1 it stop)
  have ops: "op_neq_shim it stop = op_neq it stop" "op_incr_shim it = op_incr it"
    "op_deref_shim it = op_deref it"
    by (simp_all add: op_neq_shim_def op_neq_def op_eq_def op_incr_shim_def op_incr_def
        to_underlying_shim_def to_underlying_def op_deref_shim_def op_deref_def)
  show ?case
  proof (cases "op_neq it stop")
    case True
    with "1.IH" have "range_for_loop_shim (op_incr it) stop = range_for_loop (op_incr it) stop"
      by simp
    with True show ?thesis
      by (subst range_for_loop_shim.simps, subst range_for_loop.simps) (simp add: ops)
  next
    case False
    thus ?thesis
      by (subst range_for_loop_shim.simps, subst range_for_loop.simps) (simp add: ops)
  qed
qed

lemma range_for_shim_eq: "range_for_shim r = range_for r"
  unfolding range_for_shim_def range_for_def by (rule range_for_loop_shim_eq)

lemma sint_eq_unat_small:
  fixes x :: "'a::len word"
  assumes "unat x < 2 ^ (LENGTH('a) - 1)"
  shows "sint x = int (unat x)"
proof -
  have "uint x < 2 ^ (LENGTH('a) - 1)"
  proof -
    have "int (unat x) < int (2 ^ (LENGTH('a) - 1))"
      using assms by (simp only: of_nat_less_iff)
    thus ?thesis
      by simp
  qed
  moreover have "- (2 ^ (LENGTH('a) - 1)) \<le> uint x"
  proof -
    have "(0 :: int) \<le> uint x"
      by simp
    moreover have "- (2 ^ (LENGTH('a) - 1)) \<le> (0 :: int)"
      by simp
    ultimately show ?thesis
      by (rule order_trans [rotated])
  qed
  ultimately have "signed_take_bit (LENGTH('a) - 1) (uint x) = uint x"
    by (intro signed_take_bit_int_eq_self)
  hence "sint x = uint x"
    unfolding sint_uint by simp
  thus ?thesis
    by simp
qed

lemma ordinal_value_small:
  fixes x :: "'a::len word"
  assumes "int (unat x) \<le> underlying_max sg TYPE('a)"
  shows "ordinal_value sg x = int (unat x)"
proof (cases sg)
  case Unsigned
  thus ?thesis
    by (simp add: ordinal_value_def)
next
  case Signed
  with assms have "int (unat x) < 2 ^ (LENGTH('a) - 1)"
    by (simp add: underlying_max_def)
  hence "int (unat x) < int (2 ^ (LENGTH('a) - 1))"
    by simp
  hence "unat x < 2 ^ (LENGTH('a) - 1)"
    by (simp only: of_nat_less_iff)
  with Signed show ?thesis
    by (simp add: ordinal_value_def sint_eq_unat_small)
qed

lemma underlying_max_less:
  "underlying_max sg TYPE('a::len) < 2 ^ LENGTH('a)"
proof (cases sg)
  case Unsigned
  thus ?thesis
    by (simp add: underlying_max_def)
next
  case Signed
  have "(2 :: int) ^ (LENGTH('a) - 1) \<le> 2 ^ LENGTH('a)"
    by (intro power_increasing) simp_all
  hence "(2 :: int) ^ (LENGTH('a) - 1) - 1 < 2 ^ LENGTH('a)"
    by linarith
  thus ?thesis
    unfolding underlying_max_def Signed signedness.case .
qed

lemma sle_scast_small:
  fixes n :: int32_t
  assumes "0 \<le> sint n" "sint n \<le> underlying_max Signed TYPE('a)"
  shows "0 \<le>s (scast n :: 'a::len word)"
proof -
  have "sint n < 2 ^ (LENGTH('a) - 1)"
    using assms(2) by (simp add: underlying_max_def)
  moreover have "- (2 ^ (LENGTH('a) - 1)) \<le> sint n"
  proof -
    have "- (2 ^ (LENGTH('a) - 1)) \<le> (0 :: int)"
      by simp
    thus ?thesis
      using assms(1) by (rule order_trans)
  qed
  ultimately have "signed_take_bit (LENGTH('a) - 1) (sint n) = sint n"
    by (intro signed_take_bit_int_eq_self)
  hence "sint (word_of_int (sint n) :: 'a word) = sint n"
    by (simp only: sint_sbintrunc')
  hence "sint (scast n :: 'a word) = sint n"
    by (simp only: scast_eq)
  thus ?thesis
    using assms(1) by (simp add: word_sle_eq)
qed

lemma unat_to_u32:
  fixes x :: "'a::len word"
  assumes "unat x < 2 ^ 32" and "sg = Unsigned \<or> 0 \<le>s x"
  shows "unat (to_u32 sg x) = unat x"
proof (cases sg)
  case Unsigned
  thus ?thesis
    using assms(1) by (simp only: unat_to_u32_unsigned)
next
  case Signed
  with assms(2) have nonneg: "0 \<le> sint x"
    by (simp add: word_sle_eq)
  have "sint x < 2 ^ LENGTH('a)"
  proof -
    have "sint x < 2 ^ (LENGTH('a) - 1)"
      by (rule sint_lt)
    also have "(2 :: int) ^ (LENGTH('a) - 1) \<le> 2 ^ LENGTH('a)"
      by (intro power_increasing) simp_all
    finally show ?thesis .
  qed
  with nonneg have "take_bit LENGTH('a) (sint x) = sint x"
    by (intro take_bit_int_eq_self)
  hence su: "sint x = uint x"
    by (simp only: uint_sint)
  have "to_u32 Signed x = word_of_int (sint x)"
    by (simp only: to_u32_def signedness.case scast_eq)
  also have "\<dots> = word_of_int (uint x)"
    by (simp only: su)
  also have "\<dots> = to_u32 Unsigned x"
    by (simp add: to_u32_def)
  finally show ?thesis
    using assms(1) Signed by (simp only: unat_to_u32_unsigned)
qed

lemma cpp17_bit_width_msvc_run_time_nonneg:
  fixes x :: "'a::len word"
  assumes "unat x < 2 ^ 32" and "sg = Unsigned \<or> 0 \<le>s x"
  shows "cpp17_bit_width MSVC RunTime sg x = Some (of_nat (floorlog 2 (unat x)))"
proof (cases "x = 0")
  case True
  thus ?thesis
    by (simp add: cpp17_bit_width_def floorlog_def)
next
  case False
  define m where "m = to_u32 sg x"
  have um: "unat m = unat x"
    unfolding m_def using assms by (rule unat_to_u32)
  have "0 < unat x"
    using False by (simp add: unat_gt_0)
  hence f1: "1 \<le> floorlog 2 (unat x)"
    by (simp add: floorlog_def)
  have f32: "floorlog 2 (unat x) \<le> 32"
    using assms(1) by (simp add: floorlog_le_iff)
  have m0: "m \<noteq> 0"
    using um \<open>0 < unat x\<close> by (auto simp: unat_gt_0 [symmetric])
  have "31 - countl_zero m = floorlog 2 (unat x) - 1"
    using f1 f32 by (simp add: countl_zero_32 um)
  hence "(of_nat (31 - countl_zero m) :: 32 word) + 1 = of_nat (floorlog 2 (unat x))"
    using f1 by (metis Suc_pred' of_nat_Suc less_eq_Suc_le add.commute One_nat_def)
  thus ?thesis
    using False m0 by (simp add: cpp17_bit_width_def BitScanReverse_def m_def [symmetric])
qed

section \<open>Claims\<close>

subsection \<open>C1\<close>

text \<open>
  C1 (amended). For an enumeration with declared count \<open>N \<ge> 1\<close> whose underlying type
  holds \<open>M = N - 1\<close>, the shim's \<^verbatim>\<open>bitCount()\<close>, evaluated at compile time (with MSVC also
  at run time), returns the bit width of \<open>M\<close>: \<open>0\<close> for \<open>M = 0\<close>, else
  \<open>\<lfloor>log\<^sub>2 M\<rfloor> + 1\<close>, which is \<open>\<lceil>log\<^sub>2 N\<rceil>\<close>. The primary \<^verbatim>\<open>bitCount()\<close> returns the same value
  where the underlying type is an unsigned integer type, and does not build otherwise.
\<close>

theorem bitCount_is_bit_width:
  fixes n :: int32_t
  assumes "1 \<le> sint n" and "sint n - 1 \<le> underlying_max (signedness_of u) TYPE('a)"
  shows "\<exists>w. bitCount_shim cc ConstantEvaluated (EnumType u (Some n) :: 'a::len word cxx_type)
          = Inr (Some w)
      \<and> bitCount_shim MSVC RunTime (EnumType u (Some n) :: 'a word cxx_type) = Inr (Some w)
      \<and> bitCount (EnumType u (Some n) :: 'a word cxx_type)
          = (if signedness_of u = Unsigned \<and> category_of u = IntegerType then Inr w
             else Inl ConstraintNotSatisfied)
      \<and> sint w = (if sint n - 1 = 0 then 0 else \<lfloor>log 2 (real_of_int (sint n - 1))\<rfloor> + 1)
      \<and> sint w = \<lceil>log 2 (real_of_int (sint n))\<rceil>"
proof -
  define sg where "sg = signedness_of u"
  define M where "M = nat (sint n - 1)"
  define w :: int32_t where "w = of_nat (floorlog 2 M)"
  define x :: "'a word" where "x = scast (n - 1)"
  have pos: "0 <s n"
    using assms(1) by (simp add: word_sless_alt)
  have fits: "sint n - 1 < 2 ^ LENGTH('a)"
    using assms(2) underlying_max_less [of "signedness_of u", where ?'a = 'a] by (rule le_less_trans)
  have x: "unat x = M"
    unfolding M_def x_def using assms(1) fits by (rule unat_scast_pred_count)
  have nonneg: "sg = Unsigned \<or> 0 \<le>s x"
  proof (cases sg)
    case Unsigned
    thus ?thesis by simp
  next
    case Signed
    have "0 \<le> sint (n - 1)" "sint (n - 1) \<le> underlying_max Signed TYPE('a)"
      using assms Signed by (simp_all add: sint_pred_count sg_def)
    hence "0 \<le>s (scast (n - 1) :: 'a word)"
      by (rule sle_scast_small)
    thus ?thesis
      by (simp add: x_def)
  qed
  have "sint n < 2 ^ 31"
    using sint_lt [of n] by simp
  hence M31: "M < 2 ^ 31"
    using assms(1) by (simp add: M_def nat_less_iff)
  have sw: "sint w = int (floorlog 2 M)"
    unfolding w_def using M31 by (rule sint_floorlog)
  have "bitCount_shim cc ConstantEvaluated (EnumType u (Some n) :: 'a word cxx_type)
      = Inr (Some w)"
    using cpp17_bit_width_constant_evaluated [OF nonneg, of cc]
    by (simp add: bitCount_shim_specialized [OF pos] x w_def x_def [symmetric] sg_def [symmetric])
  moreover have "bitCount_shim MSVC RunTime (EnumType u (Some n) :: 'a word cxx_type)
      = Inr (Some w)"
  proof -
    have "(2 :: nat) ^ 31 < 2 ^ 32"
      by simp
    with M31 have "unat x < 2 ^ 32"
      unfolding x by (rule less_trans)
    from cpp17_bit_width_msvc_run_time_nonneg [OF this nonneg] show ?thesis
      by (simp add: bitCount_shim_specialized [OF pos] x w_def x_def [symmetric] sg_def [symmetric])
  qed
  moreover have "bitCount (EnumType u (Some n) :: 'a word cxx_type)
      = (if signedness_of u = Unsigned \<and> category_of u = IntegerType then Inr w
         else Inl ConstraintNotSatisfied)"
    by (simp add: bitCount_specialized [OF pos] std_bit_width_call_def std_bit_width_floorlog
        x w_def x_def [symmetric])
  moreover have "sint w = (if sint n - 1 = 0 then 0 else \<lfloor>log 2 (real_of_int (sint n - 1))\<rfloor> + 1)"
    using assms(1) by (simp add: sw floorlog_floor M_def)
  moreover have "sint w = \<lceil>log 2 (real_of_int (sint n))\<rceil>"
  proof -
    have "int (floorlog 2 (nat (sint n) - 1)) = \<lceil>log 2 (real (nat (sint n)))\<rceil>"
      using assms(1) by (intro floorlog_pred_ceiling) simp
    moreover have "nat (sint n) - 1 = M"
      by (simp add: M_def nat_diff_distrib)
    ultimately show ?thesis
      using assms(1) by (simp add: sw)
  qed
  ultimately show ?thesis
    by blast
qed

text \<open>
  The theorem at \<open>N = 257\<close> over \<^verbatim>\<open>uint16_t\<close> and at \<open>N = 5\<close> over \<^verbatim>\<open>int\<close>, with the boundary
  values \<open>N = 1, 2, 3, 4, 5, 256, 257\<close> evaluated on the code.
\<close>

lemma bitCount_u16_table:
  "bitCount (EnumType (Underlying Unsigned IntegerType) (Some 1) :: 16 word cxx_type) = Inr 0"
  "bitCount (EnumType (Underlying Unsigned IntegerType) (Some 2) :: 16 word cxx_type) = Inr 1"
  "bitCount (EnumType (Underlying Unsigned IntegerType) (Some 3) :: 16 word cxx_type) = Inr 2"
  "bitCount (EnumType (Underlying Unsigned IntegerType) (Some 4) :: 16 word cxx_type) = Inr 2"
  "bitCount (EnumType (Underlying Unsigned IntegerType) (Some 5) :: 16 word cxx_type) = Inr 3"
  "bitCount (EnumType (Underlying Unsigned IntegerType) (Some 256) :: 16 word cxx_type) = Inr 8"
  "bitCount (EnumType (Underlying Unsigned IntegerType) (Some 257) :: 16 word cxx_type) = Inr 9"
  by code_simp+

theorem bitCount_is_bit_width_witness:
  "1 \<le> sint (257 :: int32_t)
   \<and> sint (257 :: int32_t) - 1 \<le> underlying_max Unsigned TYPE(16)
   \<and> bitCount (EnumType (Underlying Unsigned IntegerType) (Some 257) :: 16 word cxx_type) = Inr 9
   \<and> bitCount_shim GNUC ConstantEvaluated
        (EnumType (Underlying Unsigned IntegerType) (Some 257) :: 16 word cxx_type) = Inr (Some 9)
   \<and> \<lceil>log 2 (257 :: real)\<rceil> = 9
   \<and> 1 \<le> sint (5 :: int32_t)
   \<and> sint (5 :: int32_t) - 1 \<le> underlying_max Signed TYPE(32)
   \<and> bitCount_shim GNUC ConstantEvaluated
        (EnumType (Underlying Signed IntegerType) (Some 5) :: 32 word cxx_type) = Inr (Some 3)
   \<and> bitCount (EnumType (Underlying Signed IntegerType) (Some 5) :: 32 word cxx_type)
       = Inl ConstraintNotSatisfied"
proof -
  have h1: "1 \<le> sint (257 :: int32_t)"
    and h2: "sint (257 :: int32_t) - 1
      \<le> underlying_max (signedness_of (Underlying Unsigned IntegerType)) TYPE(16)"
    by (simp_all add: underlying_max_def)
  from bitCount_is_bit_width [OF h1 h2, of GNUC] obtain w :: int32_t
    where w: "bitCount_shim GNUC ConstantEvaluated
          (EnumType (Underlying Unsigned IntegerType) (Some 257) :: 16 word cxx_type) = Inr (Some w)"
      "bitCount (EnumType (Underlying Unsigned IntegerType) (Some 257) :: 16 word cxx_type) = Inr w"
      "sint w = \<lceil>log 2 (real_of_int (sint (257 :: int32_t)))\<rceil>"
    by auto
  from w(2) have w9: "w = 9"
    by (simp add: bitCount_u16_table)
  have g1: "1 \<le> sint (5 :: int32_t)"
    and g2: "sint (5 :: int32_t) - 1
      \<le> underlying_max (signedness_of (Underlying Signed IntegerType)) TYPE(32)"
    by (simp_all add: underlying_max_def)
  from bitCount_is_bit_width [OF g1 g2, of GNUC] obtain v :: int32_t
    where v: "bitCount_shim GNUC ConstantEvaluated
          (EnumType (Underlying Signed IntegerType) (Some 5) :: 32 word cxx_type) = Inr (Some v)"
      "bitCount (EnumType (Underlying Signed IntegerType) (Some 5) :: 32 word cxx_type)
         = Inl ConstraintNotSatisfied"
      "sint v = \<lceil>log 2 (real_of_int (sint (5 :: int32_t)))\<rceil>"
    by auto
  have "cpp17_bit_width GNUC ConstantEvaluated Signed (scast ((5 :: int32_t) - 1) :: 32 word) = Some 3"
    by (simp add: cpp17_bit_width_def width_loop.simps shift_right_1_def)
  hence "bitCount_shim GNUC ConstantEvaluated
      (EnumType (Underlying Signed IntegerType) (Some 5) :: 32 word cxx_type) = Inr (Some 3)"
    by (simp add: bitCount_shim_specialized word_sless_alt)
  with v(1) have v3: "v = 3"
    by simp
  from w w9 v v3 h1 h2 g1 g2 show ?thesis
    by simp
qed

text \<open>
  C1 as stated fails where the type of the family excludes the computation: for a signed
  underlying type and for a character type \<^verbatim>\<open>std::bit_width\<close> has no overload and the
  primary \<^verbatim>\<open>bitCount()\<close> does not build, and a declared count of 257 over an 8-bit underlying type is truncated by
  the \<^verbatim>\<open>static_cast\<close> before the width is taken, in both variants.
\<close>

theorem bitCount_counterexample:
  "bitCount (EnumType (Underlying Signed IntegerType) (Some 2) :: 32 word cxx_type)
     = Inl ConstraintNotSatisfied
   \<and> bitCount (EnumType (Underlying Unsigned CharacterType) (Some 2) :: 16 word cxx_type)
       = Inl ConstraintNotSatisfied
   \<and> bitCount (EnumType (Underlying Unsigned IntegerType) (Some 257) :: 8 word cxx_type) = Inr 0
   \<and> bitCount_shim GNUC ConstantEvaluated
        (EnumType (Underlying Unsigned IntegerType) (Some 257) :: 8 word cxx_type) = Inr (Some 0)"
proof -
  have "bitCount (EnumType (Underlying Unsigned CharacterType) (Some 2) :: 16 word cxx_type)
      = Inl ConstraintNotSatisfied"
    by code_simp
  moreover have "bitCount_shim GNUC ConstantEvaluated
      (EnumType (Underlying Unsigned IntegerType) (Some 257) :: 8 word cxx_type) = Inr (Some 0)"
    by (simp add: bitCount_shim_specialized word_sless_alt cpp17_bit_width_def)
  moreover have "bitCount (EnumType (Underlying Signed IntegerType) (Some 2) :: 32 word cxx_type)
      = Inl ConstraintNotSatisfied"
    by code_simp
  moreover have "bitCount (EnumType (Underlying Unsigned IntegerType) (Some 257) :: 8 word cxx_type)
      = Inr 0"
    by code_simp
  ultimately show ?thesis
    by simp
qed

subsection \<open>C2\<close>

text \<open>
  C2. The shim's bit width is to equal \<^verbatim>\<open>std::bit_width\<close> in both of its branches. With
  GCC or Clang the run-time branch returns \<^verbatim>\<open>__builtin_clz(x)\<close>, the number of leading
  zeros, and not the width: at \<open>N = 2\<close> (\<open>x = 1\<close>, an 8-bit underlying type) it returns
  31 where the compile-time branch, the MSVC branches and \<^verbatim>\<open>std::bit_width\<close> return 1.
\<close>

theorem cpp17_bit_width_gnuc_run_time_differs:
  "cpp17_bit_width GNUC RunTime Unsigned (scast ((2 :: int32_t) - 1) :: 8 word) = Some 31
   \<and> cpp17_bit_width GNUC ConstantEvaluated Unsigned (scast ((2 :: int32_t) - 1) :: 8 word) = Some 1
   \<and> cpp17_bit_width MSVC RunTime Unsigned (scast ((2 :: int32_t) - 1) :: 8 word) = Some 1
   \<and> cpp17_bit_width MSVC ConstantEvaluated Unsigned (scast ((2 :: int32_t) - 1) :: 8 word) = Some 1
   \<and> std_bit_width (scast ((2 :: int32_t) - 1) :: 8 word) = 1"
proof -
  have x: "(scast ((2 :: int32_t) - 1) :: 8 word) = 1"
    by simp
  have "cpp17_bit_width GNUC RunTime Unsigned (1 :: 8 word) = Some 31"
    by code_simp
  moreover have "cpp17_bit_width cc ConstantEvaluated Unsigned (1 :: 8 word) = Some 1" for cc
    by (cases cc) (simp_all add: cpp17_bit_width_def width_loop.simps shift_right_1_def)
  moreover have "cpp17_bit_width MSVC RunTime Unsigned (1 :: 8 word) = Some 1"
    by code_simp
  moreover have "std_bit_width (1 :: 8 word) = 1"
    by code_simp
  ultimately show ?thesis
    unfolding x by simp
qed

subsection \<open>C3\<close>

text \<open>
  C3 (amended). For a family with count \<open>N \<ge> 1\<close> that its underlying type can hold
  (\<open>N\<close> at most the largest value of the type: \<open>N < 2 ^ w\<close> for an unsigned type of \<open>w\<close>
  bits, \<open>N < 2 ^ (w - 1)\<close> for a signed one), \<^verbatim>\<open>ordinals\<close> builds in both variants, and a
  loop from the begin marker to the end marker, with the iterator of either variant,
  reads exactly the ordinals \<open>0, \<dots>, N - 1\<close> in ascending order: \<open>N\<close> values, all
  distinct, the first 0 and the last \<open>N - 1\<close>. The end marker holds \<open>N\<close> and is not among
  the values read.
\<close>

theorem ordinals_yields_all_ordinals:
  fixes n :: int32_t
  assumes "1 \<le> sint n" and "sint n \<le> underlying_max (signedness_of u) TYPE('a)"
  shows "ordinals (EnumType u (Some n) :: 'a::len word cxx_type) = Inr (Range n)
   \<and> ordinals_shim (EnumType u (Some n) :: 'a word cxx_type) = Inr (Range n)
   \<and> map (ordinal_value (signedness_of u) \<circ> to_underlying) (range_for (Range n :: 'a word Range))
       = map int [0..<nat (sint n)]
   \<and> map (ordinal_value (signedness_of u) \<circ> to_underlying_shim)
        (range_for_shim (Range n :: 'a word Range))
       = map int [0..<nat (sint n)]
   \<and> range_for_shim (Range n :: 'a word Range) = range_for (Range n)
   \<and> length (range_for (Range n :: 'a word Range)) = nat (sint n)
   \<and> distinct (range_for (Range n :: 'a word Range))
   \<and> sorted_wrt (\<lambda>x y. ordinal_value (signedness_of u) (to_underlying x)
          < ordinal_value (signedness_of u) (to_underlying y))
        (range_for (Range n :: 'a word Range))
   \<and> ordinal_value (signedness_of u) (to_underlying (hd (range_for (Range n :: 'a word Range)))) = 0
   \<and> ordinal_value (signedness_of u) (to_underlying (last (range_for (Range n :: 'a word Range))))
       = sint n - 1
   \<and> ordinal_value (signedness_of u)
        (to_underlying (op_deref (Range_end (Range n :: 'a word Range)))) = sint n
   \<and> op_deref (Range_end (Range n :: 'a word Range)) \<notin> set (range_for (Range n :: 'a word Range))"
proof -
  define sg where "sg = signedness_of u"
  define xs where "xs = range_for (Range n :: 'a word Range)"
  define f where "f = (unat \<circ> to_underlying :: 'a word enumT \<Rightarrow> nat)"
  define g where "g = (ordinal_value sg \<circ> to_underlying :: 'a word enumT \<Rightarrow> int)"
  define N where "N = nat (sint n)"
  have mx: "sint n \<le> underlying_max sg TYPE('a)"
    using assms(2) by (simp add: sg_def)
  have N1: "1 \<le> N"
    using assms(1) by (simp add: N_def)
  have nonneg: "0 \<le> sint n"
    using assms(1) by simp
  have iN: "int N = sint n"
    using nonneg by (simp add: N_def)
  have pos: "0 <s n"
    using assms(1) by (simp add: word_sless_alt)
  have fits: "sint n < 2 ^ LENGTH('a)"
    using mx underlying_max_less [of sg, where ?'a = 'a] by (rule le_less_trans)
  have m: "map f xs = [0..<N]"
    unfolding xs_def f_def N_def using nonneg fits by (rule range_for_ordinals)
  have gf: "g x = int (f x)" if "x \<in> set xs" for x
  proof -
    from that have "f x \<in> set (map f xs)"
      by simp
    hence "f x < N"
      by (simp add: m)
    hence "int (f x) \<le> sint n"
      using iN by linarith
    hence "int (unat (to_underlying x)) \<le> underlying_max sg TYPE('a)"
      using mx by (simp add: f_def)
    thus ?thesis
      by (simp add: g_def f_def ordinal_value_small)
  qed
  have "map g xs = map (int \<circ> f) xs"
    by (rule map_cong) (simp_all add: gf)
  hence mg: "map g xs = map int [0..<N]"
    using m by (simp add: map_map [symmetric] del: map_map)
  have len: "length xs = N"
    using arg_cong [OF m, of length] by simp
  hence ne: "xs \<noteq> []"
    using N1 by auto
  have "distinct (map g xs)"
    by (simp add: mg distinct_map)
  hence dist: "distinct xs"
    by (simp add: distinct_map)
  have "sorted_wrt (\<lambda>i j. int i < int j) [0..<N]"
    by simp
  hence "sorted_wrt (<) (map g xs)"
    by (simp only: mg sorted_wrt_map)
  hence srt: "sorted_wrt (\<lambda>x y. g x < g y) xs"
    by (simp only: sorted_wrt_map)
  have "hd xs \<in> set xs" "last xs \<in> set xs"
    using ne by simp_all
  hence "g (hd xs) = int (f (hd xs))" "g (last xs) = int (f (last xs))"
    by (simp_all add: gf)
  moreover have "f (hd xs) = hd (map f xs)" "f (last xs) = last (map f xs)"
    using ne by (simp_all add: hd_map last_map)
  ultimately have first: "g (hd xs) = 0" and lst: "g (last xs) = sint n - 1"
    using N1 iN by (simp_all add: m hd_upt)
  have "unat (scast n :: 'a word) = N"
    unfolding N_def using nonneg fits by (rule unat_scast_count)
  hence "ordinal_value sg (scast n :: 'a word) = int N"
    using mx iN by (simp add: ordinal_value_small)
  hence stop: "g (op_deref (Range_end (Range n :: 'a word Range))) = sint n"
    by (simp add: g_def iN op_deref_def Range_end_def static_cast_EnumT_def to_underlying_def)
  have notin: "op_deref (Range_end (Range n :: 'a word Range)) \<notin> set xs"
  proof
    assume "op_deref (Range_end (Range n :: 'a word Range)) \<in> set xs"
    hence "g (op_deref (Range_end (Range n :: 'a word Range))) \<in> set (map g xs)"
      by simp
    hence "sint n \<in> set (map int [0..<N])"
      unfolding stop mg .
    thus False
      by (auto simp: iN [symmetric])
  qed
  have shim: "range_for_shim (Range n :: 'a word Range) = xs"
    by (simp only: xs_def range_for_shim_eq)
  have gs: "(ordinal_value sg \<circ> to_underlying_shim :: 'a word enumT \<Rightarrow> int) = g"
    by (simp add: g_def fun_eq_iff to_underlying_shim_def to_underlying_def)
  have c1: "ordinals (EnumType u (Some n) :: 'a word cxx_type) = Inr (Range n)"
    using pos by (rule ordinals_specialized)
  have c2: "ordinals_shim (EnumType u (Some n) :: 'a word cxx_type) = Inr (Range n)"
    by (rule ordinals_shim_specialized)
  have c4: "map (ordinal_value sg \<circ> to_underlying_shim) (range_for_shim (Range n :: 'a word Range))
      = map int [0..<N]"
    by (simp only: shim gs mg)
  from c1 c2 mg c4 shim len dist srt first lst stop notin show ?thesis
    unfolding xs_def [symmetric] sg_def [symmetric] N_def [symmetric] g_def comp_def
    by (intro conjI)
qed

theorem ordinals_yields_all_ordinals_witness:
  "1 \<le> sint (5 :: int32_t) \<and> sint (5 :: int32_t) \<le> underlying_max Unsigned TYPE(8)
   \<and> ordinals (EnumType (Underlying Unsigned IntegerType) (Some 5) :: 8 word cxx_type)
       = Inr (Range 5)
   \<and> map (ordinal_value Unsigned \<circ> to_underlying) (range_for (Range 5 :: 8 word Range))
       = [0, 1, 2, 3, 4]
   \<and> range_for (Range 5 :: 8 word Range) = [EnumT 0, EnumT 1, EnumT 2, EnumT 3, EnumT 4]
   \<and> range_for_shim (Range 5 :: 8 word Range) = [EnumT 0, EnumT 1, EnumT 2, EnumT 3, EnumT 4]
   \<and> sint (127 :: int32_t) \<le> underlying_max Signed TYPE(8)
   \<and> length (range_for (Range 127 :: 8 word Range)) = 127
   \<and> ordinal_value Signed (to_underlying (op_deref (Range_end (Range 127 :: 8 word Range)))) = 127"
proof -
  have h1: "1 \<le> sint (5 :: int32_t)"
    and h2: "sint (5 :: int32_t)
      \<le> underlying_max (signedness_of (Underlying Unsigned IntegerType)) TYPE(8)"
    by (simp_all add: underlying_max_def)
  have g1: "1 \<le> sint (127 :: int32_t)"
    and g2: "sint (127 :: int32_t)
      \<le> underlying_max (signedness_of (Underlying Signed IntegerType)) TYPE(8)"
    by (simp_all add: underlying_max_def)
  have l: "map int [0..<nat (sint (5 :: int32_t))] = [0, 1, 2, 3, 4]"
    by (simp add: upt_conv_Cons)
  have r: "range_for (Range 5 :: 8 word Range) = [EnumT 0, EnumT 1, EnumT 2, EnumT 3, EnumT 4]"
    by (simp add: range_for_values upt_conv_Cons)
  note a = ordinals_yields_all_ordinals [OF h1 h2, unfolded l underlying.sel]
  note b = ordinals_yields_all_ordinals [OF g1 g2, unfolded underlying.sel]
  have b1: "length (range_for (Range 127 :: 8 word Range)) = 127"
    using b by simp
  have b2: "ordinal_value Signed (to_underlying (op_deref (Range_end (Range 127 :: 8 word Range))))
      = 127"
    using b by simp
  have a1: "ordinals (EnumType (Underlying Unsigned IntegerType) (Some 5) :: 8 word cxx_type)
      = Inr (Range 5)"
    using a by blast
  have a2: "map (ordinal_value Unsigned \<circ> to_underlying) (range_for (Range 5 :: 8 word Range))
      = [0, 1, 2, 3, 4]"
    using a by blast
  have a3: "range_for_shim (Range 5 :: 8 word Range) = [EnumT 0, EnumT 1, EnumT 2, EnumT 3, EnumT 4]"
    using a r by simp
  from h1 h2 g2 a1 a2 a3 r b1 b2 show ?thesis
    by simp
qed

text \<open>
  C3 as stated fails for a family that fills its underlying type. With 256 members over
  \<^verbatim>\<open>uint8_t\<close> the predicate holds, the end marker \<^verbatim>\<open>static_cast<EnumT>(256)\<close> is the value
  0, equal to the begin marker, and the loop reads nothing. With 128 members over
  \<^verbatim>\<open>int8_t\<close> the predicate holds and the end marker is \<open>- 128\<close>, not 128.
\<close>

theorem ordinals_counterexample:
  "HasOrdinality (EnumType (Underlying Unsigned IntegerType) (Some 256) :: 8 word cxx_type)
     = Inr True
   \<and> ordinals (EnumType (Underlying Unsigned IntegerType) (Some 256) :: 8 word cxx_type)
       = Inr (Range 256)
   \<and> ordinal_value Unsigned (to_underlying (op_deref (Range_end (Range 256 :: 8 word Range)))) = 0
   \<and> range_for (Range 256 :: 8 word Range) = []
   \<and> range_for_shim (Range 256 :: 8 word Range) = []
   \<and> HasOrdinality (EnumType (Underlying Signed IntegerType) (Some 128) :: 8 word cxx_type)
       = Inr True
   \<and> ordinals (EnumType (Underlying Signed IntegerType) (Some 128) :: 8 word cxx_type)
       = Inr (Range 128)
   \<and> ordinal_value Signed (to_underlying (op_deref (Range_end (Range 128 :: 8 word Range))))
       = - 128"
  by (simp add: HasOrdinality_specialized ordinals_specialized word_sless_alt range_for_values
      range_for_shim_eq ordinal_value_def op_deref_def Range_end_def static_cast_EnumT_def
      to_underlying_def)

subsection \<open>C4\<close>

text \<open>
  C4 (amended). For an enumeration with a specialization of \<^verbatim>\<open>ordinalCount\<close>, the predicate
  \<^verbatim>\<open>HasOrdinality\<close> is true if the returned count is greater than 0 and false otherwise, in
  both variants; for an enumeration with no specialization the predicate has no value, as
  its evaluation calls a function without a definition.
\<close>

theorem HasOrdinality_iff_positive_count:
  "HasOrdinality (EnumType u (Some n) :: 'u cxx_type) = Inr (0 < sint n)
   \<and> HasOrdinality_shim (EnumType u (Some n) :: 'u cxx_type) = Inr (0 < sint n)
   \<and> HasOrdinality (EnumType u None :: 'u cxx_type) = Inl NoDefinition
   \<and> HasOrdinality_shim (EnumType u None :: 'u cxx_type) = Inl NoDefinition"
  by (simp add: HasOrdinality_def HasOrdinality_shim_def ordinalCount_def Enumeration_def ordinalCount_shim_def
      IsEnumeration_def word_sless_alt)

text \<open>
  C4 as stated gives the predicate the value false for an enumeration without a
  specialization; on the code it has none.
\<close>

theorem HasOrdinality_counterexample:
  "Enumeration (EnumType (Underlying Unsigned IntegerType) None :: 8 word cxx_type)
   \<and> HasOrdinality (EnumType (Underlying Unsigned IntegerType) None :: 8 word cxx_type) \<noteq> Inr False
   \<and> HasOrdinality_shim (EnumType (Underlying Unsigned IntegerType) None :: 8 word cxx_type) \<noteq> Inr False"
  by (simp add: Enumeration_def HasOrdinality_def HasOrdinality_shim_def ordinalCount_def
      ordinalCount_shim_def IsEnumeration_def)

subsection \<open>C5\<close>

text \<open>
  C5. Two calls of \<^verbatim>\<open>ordinals\<close> for a family give ranges with the same sequence. With one
  iterator object of each range in memory, at different addresses, any advancing and
  reading of the first leaves what a loop over the second reads unchanged: the whole
  sequence of its range. A fresh begin marker holds ordinal 0.
\<close>

theorem ordinals_restartable:
  fixes t :: "'a::len word cxx_type" and s :: "'a word store"
  assumes "ordinals t = Inr r1 \<or> ordinals_shim t = Inr r1"
    and "ordinals t = Inr r2 \<or> ordinals_shim t = Inr r2"
    and "s a = Some (Range_begin r1)" and "s b = Some (Range_begin r2)" and "a \<noteq> b"
    and "\<forall>op \<in> set ops. target op = a"
  shows "range_for r2 = range_for r1
   \<and> remaining (exec_ops s ops) b (Range_end r2) = Some (range_for r2)
   \<and> to_underlying (op_deref (Range_begin r1)) = 0
   \<and> to_underlying (op_deref (Range_begin r2)) = 0"
proof -
  from ordinals_Inr_D [OF assms(1)] ordinals_Inr_D [OF assms(2)] have "r2 = r1"
    by auto
  moreover have "exec_ops s ops b = s b"
    using assms(5,6) by (intro exec_ops_frame) auto
  ultimately show ?thesis
    using assms(4)
    by (simp add: remaining_def range_for_def Range_begin_def op_deref_def to_underlying_def)
qed

theorem ordinals_restartable_witness:
  "ordinals (EnumType (Underlying Unsigned IntegerType) (Some 3) :: 8 word cxx_type) = Inr (Range 3)
   \<and> (0 :: nat) \<noteq> 1
   \<and> map target [Advance 0, Read 0, Advance 0] = [0, 0, 0]
   \<and> exec_ops [0 \<mapsto> Range_begin (Range 3 :: 8 word Range), 1 \<mapsto> Range_begin (Range 3)]
        [Advance 0, Read 0, Advance 0] 0 = Some \<lparr>e = EnumT 2\<rparr>
   \<and> remaining
        (exec_ops [0 \<mapsto> Range_begin (Range 3 :: 8 word Range), 1 \<mapsto> Range_begin (Range 3)]
           [Advance 0, Read 0, Advance 0])
        1 (Range_end (Range 3))
       = Some [EnumT 0, EnumT 1, EnumT 2]"
proof -
  define s :: "8 word store"
    where "s = [0 \<mapsto> Range_begin (Range 3 :: 8 word Range), 1 \<mapsto> Range_begin (Range 3)]"
  have h1: "ordinals (EnumType (Underlying Unsigned IntegerType) (Some 3) :: 8 word cxx_type) = Inr (Range 3)
      \<or> ordinals_shim (EnumType (Underlying Unsigned IntegerType) (Some 3) :: 8 word cxx_type) = Inr (Range 3)"
    by (simp add: ordinals_specialized word_sless_alt)
  have h3: "s 0 = Some (Range_begin (Range 3))" and h4: "s 1 = Some (Range_begin (Range 3))"
    by (simp_all add: s_def)
  have h5: "(0 :: nat) \<noteq> 1"
    by simp
  have h6: "\<forall>op \<in> set [Advance 0, Read 0, Advance 0]. target op = 0"
    by simp
  have c1: "ordinals (EnumType (Underlying Unsigned IntegerType) (Some 3) :: 8 word cxx_type) = Inr (Range 3)"
    by (simp add: ordinals_specialized word_sless_alt)
  have rf: "range_for (Range 3 :: 8 word Range) = [EnumT 0, EnumT 1, EnumT 2]"
    by (simp add: range_for_values upt_conv_Cons)
  have r1: "exec_ops s [Advance 0, Read 0, Advance 0] 0 = Some \<lparr>e = EnumT 2\<rparr>"
    by (simp add: exec_ops_def s_def Range_begin_def op_incr_def static_cast_EnumT_def
        to_underlying_def)
  have r2: "remaining (exec_ops s [Advance 0, Read 0, Advance 0]) 1 (Range_end (Range 3))
      = Some [EnumT 0, EnumT 1, EnumT 2]"
    using ordinals_restartable [OF h1 h1 h3 h4 h5 h6, THEN conjunct2, THEN conjunct1]
    unfolding rf .
  have tg: "map target [Advance 0, Read 0, Advance 0] = [0, 0, 0]"
    by simp
  show ?thesis
    using c1 h5 tg r1 r2 unfolding s_def by blast
qed

subsection \<open>C6\<close>

text \<open>
  C6. Two position markers are equal exactly when their underlying ordinals are equal,
  and unequal exactly when they are not, in both variants; the ordinal is the whole state
  of a marker.
\<close>

theorem Iterator_equality_is_ordinal_equality:
  fixes a b :: "'u Iterator"
  shows "(op_eq a b \<longleftrightarrow> to_underlying (e a) = to_underlying (e b))
   \<and> (op_neq a b \<longleftrightarrow> to_underlying (e a) \<noteq> to_underlying (e b))
   \<and> (op_eq_shim a b \<longleftrightarrow> to_underlying_shim (e a) = to_underlying_shim (e b))
   \<and> (op_neq_shim a b \<longleftrightarrow> to_underlying_shim (e a) \<noteq> to_underlying_shim (e b))
   \<and> (op_eq a b \<longleftrightarrow> a = b)"
  by (auto simp: op_eq_def op_neq_def op_eq_shim_def op_neq_shim_def to_underlying_def
      to_underlying_shim_def enumT.expand)

subsection \<open>C7\<close>

text \<open>
  C7. Both variants are to constrain \<^verbatim>\<open>ordinals\<close> by the capability predicate. The primary
  does (line 56); the shim enables it for every enumeration (line 173), so for a family
  whose specialization returns 0 the primary rejects \<^verbatim>\<open>ordinals\<close> and the shim builds it.
\<close>

theorem ordinals_shim_not_constrained:
  "HasOrdinality (EnumType (Underlying Unsigned IntegerType) (Some 0) :: 8 word cxx_type) = Inr False
   \<and> HasOrdinality_shim (EnumType (Underlying Unsigned IntegerType) (Some 0) :: 8 word cxx_type) = Inr False
   \<and> ordinals (EnumType (Underlying Unsigned IntegerType) (Some 0) :: 8 word cxx_type) = Inl ConstraintNotSatisfied
   \<and> ordinals_shim (EnumType (Underlying Unsigned IntegerType) (Some 0) :: 8 word cxx_type) = Inr (Range 0)"
  by (simp add: ordinals_def ordinals_shim_def HasOrdinality_def HasOrdinality_shim_def
      ordinalCount_def Enumeration_def ordinalCount_shim_def IsEnumeration_def constrained_def word_sless_alt)

subsection \<open>C8\<close>

text \<open>
  C8. A specialization returning a non-positive count is to make iteration
  uninstantiable. For a count of \<open>-1\<close> over an 8-bit underlying type the shim's predicate is
  false and its \<^verbatim>\<open>bitCount\<close> is rejected, but its \<^verbatim>\<open>ordinals\<close> builds, and a loop over the
  range runs through 255 values.
\<close>

theorem ordinals_shim_nonpositive_count:
  "HasOrdinality_shim (EnumType (Underlying Unsigned IntegerType) (Some (- 1)) :: 8 word cxx_type) = Inr False
   \<and> bitCount_shim GNUC ConstantEvaluated (EnumType (Underlying Unsigned IntegerType) (Some (- 1)) :: 8 word cxx_type)
       = Inl ConstraintNotSatisfied
   \<and> ordinals_shim (EnumType (Underlying Unsigned IntegerType) (Some (- 1)) :: 8 word cxx_type) = Inr (Range (- 1))
   \<and> length (range_for (Range (- 1) :: 8 word Range)) = 255"
  by (simp add: ordinals_shim_def bitCount_shim_def HasOrdinality_shim_def ordinalCount_shim_def
      IsEnumeration_def constrained_def word_sless_alt range_for_values
      unsigned_minus_1_eq_mask mask_eq_exp_minus_1)

subsection \<open>C9\<close>

text \<open>
  C9. \<^verbatim>\<open>to_underlying\<close> returns the underlying integer of an enumeration value, casting the
  result back gives the value again, and the shim's function is the same function.
\<close>

theorem to_underlying_round_trip:
  "to_underlying (EnumT v) = v
   \<and> static_cast_EnumT (to_underlying x) = x
   \<and> to_underlying (static_cast_EnumT v) = v
   \<and> to_underlying_shim x = to_underlying x"
  by (simp add: to_underlying_def to_underlying_shim_def static_cast_EnumT_def)

subsection \<open>C10\<close>

text \<open>
  C10. The shift-and-count loop of \<^verbatim>\<open>cpp17_bit_width\<close> returns exactly for the inputs that
  are not negative: for every value of an unsigned type and for the values \<open>x \<ge> 0\<close> of a
  signed type. For a negative value of a signed type the arithmetic shift keeps the sign
  and the loop does not return. The same holds of \<^verbatim>\<open>cpp17_bit_width\<close> evaluated at
  compile time.
\<close>

theorem width_loop_returns_iff_nonnegative:
  "((\<exists>y. width_loop sg x w = Some y) \<longleftrightarrow> (sg = Unsigned \<or> 0 \<le>s x))
   \<and> ((\<exists>y. cpp17_bit_width cc ConstantEvaluated sg x = Some y) \<longleftrightarrow> (sg = Unsigned \<or> 0 \<le>s x))"
proof -
  have loop: "(\<exists>y. width_loop sg x w = Some y) \<longleftrightarrow> (sg = Unsigned \<or> 0 \<le>s x)" for w
    using width_loop_Some_nonneg [of sg x w] width_loop_nonneg [of sg x w] by auto
  have "(\<exists>y. cpp17_bit_width cc ConstantEvaluated sg x = Some y) \<longleftrightarrow> (sg = Unsigned \<or> 0 \<le>s x)"
  proof (cases "x = 0")
    case True
    thus ?thesis
      by (simp add: cpp17_bit_width_def)
  next
    case False
    hence "cpp17_bit_width cc ConstantEvaluated sg x = width_loop sg x 0"
      by (cases cc) (simp_all add: cpp17_bit_width_def)
    thus ?thesis
      using loop [of 0] by simp
  qed
  with loop [of w] show ?thesis
    by simp
qed

lemma width_loop_negative_example: "width_loop Signed (- 1 :: 8 word) 0 = None"
proof -
  have "\<not> (0 \<le>s (- 1 :: 8 word))"
    by (simp add: word_sle_eq)
  with width_loop_Some_nonneg [of Signed "- 1 :: 8 word" 0] show ?thesis
    by (cases "width_loop Signed (- 1 :: 8 word) 0") auto
qed

end
